theory Spec2Isabelle
  imports Main "HOL-Library.List_Lexorder"
begin

section \<open>Python values\<close>

text \<open>
  A Python \<open>str\<close> is a sequence of Unicode code points, so text is a list of code points
  and not a list of bytes. \<open>u\<close> embeds an ASCII literal.
\<close>

type_synonym str = "nat list"

abbreviation u :: "string \<Rightarrow> str" where
  "u s \<equiv> map of_char s"

text \<open>
  What \<open>r.json()\<close> returns: \<open>None\<close>, \<open>bool\<close>, \<open>int\<close>, \<open>str\<close>, \<open>list\<close> and \<open>dict\<close> (keys in
  insertion order, each key once). JSON numbers with a fraction (Python floats) are outside
  the model.
\<close>

datatype json =
    JNull
  | JBool bool
  | JInt int
  | JStr str
  | JList "json list"
  | JObj "(str \<times> json) list"

datatype error =
    AttributeError
  | TypeError
  | KeyError
  | ValueError
  | OtherError str

text \<open>Sequencing of computations that may raise.\<close>

definition bnd :: "error + 'a \<Rightarrow> ('a \<Rightarrow> error + 'b) \<Rightarrow> error + 'b" where
  "bnd m f = (case m of Inl e \<Rightarrow> Inl e | Inr x \<Rightarrow> f x)"

text \<open>Truth value of an object, as \<open>if x\<close>, \<open>x or y\<close> and \<open>x and y\<close> test it.\<close>

fun truthy :: "json \<Rightarrow> bool" where
  "truthy JNull = False"
| "truthy (JBool b) = b"
| "truthy (JInt i) = (i \<noteq> 0)"
| "truthy (JStr s) = (s \<noteq> [])"
| "truthy (JList xs) = (xs \<noteq> [])"
| "truthy (JObj kvs) = (kvs \<noteq> [])"

definition py_or :: "json \<Rightarrow> json \<Rightarrow> json" where
  "py_or x y = (if truthy x then x else y)"

text \<open>\<open>d.get(k, default)\<close> on a dict, and on any value: only a dict has the method.\<close>

definition dget :: "(str \<times> json) list \<Rightarrow> str \<Rightarrow> json \<Rightarrow> json" where
  "dget kvs k d = (case map_of kvs k of Some v \<Rightarrow> v | None \<Rightarrow> d)"

definition has_key :: "(str \<times> json) list \<Rightarrow> str \<Rightarrow> bool" where
  "has_key kvs k = (map_of kvs k \<noteq> None)"

fun py_get :: "json \<Rightarrow> str \<Rightarrow> json \<Rightarrow> error + json" where
  "py_get (JObj kvs) k d = Inr (dget kvs k d)"
| "py_get _ k d = Inl AttributeError"

text \<open>\<open>s[k]\<close> with a string key.\<close>

fun subscript :: "json \<Rightarrow> str \<Rightarrow> error + json" where
  "subscript (JObj kvs) k = (case map_of kvs k of Some v \<Rightarrow> Inr v | None \<Rightarrow> Inl KeyError)"
| "subscript _ k = Inl TypeError"

text \<open>
  \<open>x == y\<close>: \<open>True == 1\<close> and \<open>False == 0\<close> hold, dicts compare without regard to the
  order of their keys, everything else compares by structure.
\<close>

primrec canon :: "json \<Rightarrow> json" where
  "canon JNull = JNull"
| "canon (JBool b) = JInt (if b then 1 else 0)"
| "canon (JInt i) = JInt i"
| "canon (JStr s) = JStr s"
| "canon (JList xs) = JList (map canon xs)"
| "canon (JObj kvs) = JObj (sort_key fst (map (map_prod id canon) kvs))"

definition py_eq :: "json \<Rightarrow> json \<Rightarrow> bool" where
  "py_eq x y = (canon x = canon y)"

text \<open>
  \<open>x >= y\<close>: numbers with numbers (\<open>bool\<close> is a subclass of \<open>int\<close>), strings with strings
  by code point, lists with lists at the first pair of unequal items; every other pair of
  types raises \<open>TypeError\<close>.
\<close>

primrec py_ge :: "json \<Rightarrow> json \<Rightarrow> error + bool"
  and py_ge_list :: "json list \<Rightarrow> json list \<Rightarrow> error + bool" where
  "py_ge JNull y = Inl TypeError"
| "py_ge (JBool b) y =
     (case y of JBool c \<Rightarrow> Inr (b \<or> \<not> c)
      | JInt j \<Rightarrow> Inr (j \<le> (if b then 1 else 0))
      | _ \<Rightarrow> Inl TypeError)"
| "py_ge (JInt i) y =
     (case y of JBool c \<Rightarrow> Inr ((if c then 1 else 0) \<le> i)
      | JInt j \<Rightarrow> Inr (j \<le> i)
      | _ \<Rightarrow> Inl TypeError)"
| "py_ge (JStr s) y = (case y of JStr t \<Rightarrow> Inr (t \<le> s) | _ \<Rightarrow> Inl TypeError)"
| "py_ge (JList xs) y = (case y of JList ys \<Rightarrow> py_ge_list xs ys | _ \<Rightarrow> Inl TypeError)"
| "py_ge (JObj kvs) y = Inl TypeError"
| "py_ge_list [] ys = Inr (ys = [])"
| "py_ge_list (x # xs) ys =
     (case ys of [] \<Rightarrow> Inr True
      | y # ys' \<Rightarrow> if py_eq x y then py_ge_list xs ys' else py_ge x y)"

text \<open>Lists and dicts cannot be hashed: they are no members of a set.\<close>

fun hashable :: "json \<Rightarrow> bool" where
  "hashable (JList xs) = False"
| "hashable (JObj kvs) = False"
| "hashable _ = True"

text \<open>\<open>"sep".join(lines)\<close>\<close>

fun join :: "str \<Rightarrow> str list \<Rightarrow> str" where
  "join sep [] = []"
| "join sep [x] = x"
| "join sep (x # y # ys) = x @ sep @ join sep (y # ys)"

section \<open>The text normalizer\<close>

text \<open>\<open>str.isspace\<close> of one character, the set \<open>str.strip()\<close> removes at both ends.\<close>

definition isspace :: "nat \<Rightarrow> bool" where
  "isspace c = ((9 \<le> c \<and> c \<le> 13) \<or> (28 \<le> c \<and> c \<le> 32) \<or> c = 133 \<or> c = 160
     \<or> c = 5760 \<or> (8192 \<le> c \<and> c \<le> 8202) \<or> c = 8232 \<or> c = 8233 \<or> c = 8239
     \<or> c = 8287 \<or> c = 12288)"

definition strip :: "str \<Rightarrow> str" where
  "strip s = rev (dropWhile isspace (rev (dropWhile isspace s)))"

text \<open>
  \<open>TAG_RE.sub("", s)\<close> with \<open>TAG_RE = <[^>]+>\<close>: scanning from the left, a \<open><\<close> (60)
  followed by at least one character other than \<open>>\<close> (62) and then a \<open>>\<close> is deleted with
  all of them; any other character is kept.
\<close>

function TAG_RE_sub :: "str \<Rightarrow> str" where
  "TAG_RE_sub [] = []"
| "TAG_RE_sub (c # cs) =
     (if c = 60 \<and> takeWhile (\<lambda>x. x \<noteq> 62) cs \<noteq> [] \<and> dropWhile (\<lambda>x. x \<noteq> 62) cs \<noteq> []
      then TAG_RE_sub (tl (dropWhile (\<lambda>x. x \<noteq> 62) cs))
      else c # TAG_RE_sub cs)"
  by pat_completeness auto
termination
proof (relation "measure length")
  fix c :: nat and cs :: str
  have "length (dropWhile (\<lambda>x. x \<noteq> 62) cs) \<le> length cs"
    by (rule length_dropWhile_le)
  then show "(tl (dropWhile (\<lambda>x. x \<noteq> 62) cs), c # cs) \<in> measure length"
    by simp
qed simp_all

text \<open>
  \<open>html.unescape\<close> of the standard library. Its three tables (\<open>html.entities.html5\<close>,
  \<open>_invalid_charrefs\<close>, \<open>_invalid_codepoints\<close>) are parameters, and so is the interpreter's
  limit on the digits of a decimal literal (\<open>sys.get_int_max_str_digits()\<close>: 4300 unless
  set otherwise, 0 for no limit).
\<close>

record entities =
  html5 :: "str \<rightharpoonup> str"
  invalid_charrefs :: "nat \<rightharpoonup> str"
  invalid_codepoints :: "nat \<Rightarrow> bool"
  max_str_digits :: nat

definition is_digit :: "nat \<Rightarrow> bool" where
  "is_digit c = (48 \<le> c \<and> c \<le> 57)"

definition is_xdigit :: "nat \<Rightarrow> bool" where
  "is_xdigit c = (is_digit c \<or> (65 \<le> c \<and> c \<le> 70) \<or> (97 \<le> c \<and> c \<le> 102))"

text \<open>\<open>[^\t\n\f <&#;]\<close>\<close>

definition is_name_char :: "nat \<Rightarrow> bool" where
  "is_name_char c = (c \<noteq> 9 \<and> c \<noteq> 10 \<and> c \<noteq> 12 \<and> c \<noteq> 32 \<and> c \<noteq> 60 \<and> c \<noteq> 38 \<and> c \<noteq> 35 \<and> c \<noteq> 59)"

text \<open>The trailing \<open>;?\<close> of each alternative: the match so far and the text after it.\<close>

definition opt_semicolon :: "str \<Rightarrow> str \<Rightarrow> str \<times> str" where
  "opt_semicolon g rest =
     (case rest of [] \<Rightarrow> (g, rest)
      | c # r \<Rightarrow> if c = 59 then (g @ [59], r) else (g, rest))"

text \<open>
  A match of \<open>_charref = &(#[0-9]+;?|#[xX][0-9a-fA-F]+;?|[^\t\n\f <&#;]{1,32};?)\<close> right
  after an \<open>&\<close>: group 1 and the text after the match.
\<close>

definition charref_match :: "str \<Rightarrow> (str \<times> str) option" where
  "charref_match cs =
     (case cs of [] \<Rightarrow> None
      | c # ds \<Rightarrow>
          if c = 35 then
            (if takeWhile is_digit ds \<noteq> []
             then Some (opt_semicolon (35 # takeWhile is_digit ds) (dropWhile is_digit ds))
             else (case ds of [] \<Rightarrow> None
                   | x # hs \<Rightarrow>
                       if (x = 120 \<or> x = 88) \<and> takeWhile is_xdigit hs \<noteq> []
                       then Some (opt_semicolon (35 # x # takeWhile is_xdigit hs)
                                    (dropWhile is_xdigit hs))
                       else None))
          else
            (let n = take 32 (takeWhile is_name_char cs)
             in if n = [] then None else Some (opt_semicolon n (drop (length n) cs))))"

definition digit_val :: "nat \<Rightarrow> nat" where
  "digit_val c = (if is_digit c then c - 48 else if 97 \<le> c then c - 87 else c - 55)"

definition int_of :: "nat \<Rightarrow> str \<Rightarrow> nat" where
  "int_of base ds = foldl (\<lambda>a d. a * base + digit_val d) 0 ds"

text \<open>
  \<open>int(ds)\<close> of decimal digits: \<open>ValueError\<close> when there are more of them than the limit
  allows. \<open>int(ds, 16)\<close> has no limit.
\<close>

definition py_int :: "entities \<Rightarrow> str \<Rightarrow> error + nat" where
  "py_int E ds =
     (if 0 < max_str_digits E \<and> max_str_digits E < length ds then Inl ValueError
      else Inr (int_of 10 ds))"

definition rstrip_semicolon :: "str \<Rightarrow> str" where
  "rstrip_semicolon s = rev (dropWhile (\<lambda>c. c = 59) (rev s))"

text \<open>The loop \<open>for x in range(len(s)-1, 1, -1)\<close> of \<open>_replace_charref\<close>.\<close>

fun longest_name :: "entities \<Rightarrow> str \<Rightarrow> nat \<Rightarrow> str" where
  "longest_name E s x =
     (if x \<le> 1 then 38 # s
      else (case html5 E (take x s) of
              Some r \<Rightarrow> r @ drop x s
            | None \<Rightarrow> longest_name E s (x - 1)))"

definition replace_charref :: "entities \<Rightarrow> str \<Rightarrow> error + str" where
  "replace_charref E s =
     (if hd s = 35 then
        bnd (if hd (tl s) = 120 \<or> hd (tl s) = 88
             then Inr (int_of 16 (rstrip_semicolon (drop 2 s)))
             else py_int E (rstrip_semicolon (drop 1 s))) (\<lambda>num.
          Inr (case invalid_charrefs E num of
              Some r \<Rightarrow> r
            | None \<Rightarrow>
                if (55296 \<le> num \<and> num \<le> 57343) \<or> num > 1114111 then [65533]
                else if invalid_codepoints E num then []
                else [num]))
      else
        Inr (case html5 E s of
           Some r \<Rightarrow> r
         | None \<Rightarrow> longest_name E s (length s - 1)))"

text \<open>
  \<open>_charref.sub(_replace_charref, s)\<close>: the matches are replaced from the left, and the
  first replacement that raises ends the call.
\<close>

function charref_sub :: "entities \<Rightarrow> str \<Rightarrow> error + str" where
  "charref_sub E [] = Inr []"
| "charref_sub E (c # cs) =
     (if c = 38 then
        (case charref_match cs of
           Some (g, rest) \<Rightarrow>
             bnd (replace_charref E g) (\<lambda>r.
             bnd (charref_sub E (drop (length cs - length rest) cs)) (\<lambda>t. Inr (r @ t)))
         | None \<Rightarrow> bnd (charref_sub E cs) (\<lambda>t. Inr (c # t)))
      else bnd (charref_sub E cs) (\<lambda>t. Inr (c # t)))"
  by pat_completeness auto
termination
  by (relation "measure (\<lambda>(E, s). length s)") auto

definition unescape :: "entities \<Rightarrow> str \<Rightarrow> error + str" where
  "unescape E s = (if 38 \<notin> set s then Inr s else charref_sub E s)"

text \<open>
  \<open>strip_html(t)\<close>: \<open>t or ""\<close> lets \<open>None\<close> and every other false value through as the empty
  string; a true value that is no string makes \<open>TAG_RE.sub\<close> raise, and so does a decimal
  reference too long for \<open>int\<close>.
\<close>

definition strip_html :: "entities \<Rightarrow> json \<Rightarrow> error + str" where
  "strip_html E t =
     (case py_or t (JStr []) of
        JStr s \<Rightarrow> bnd (unescape E (TAG_RE_sub s)) (\<lambda>t. Inr (strip t))
      | _ \<Rightarrow> Inl TypeError)"

text \<open>
  The entries of \<open>html.entities.html5\<close> for the five XML entities, empty tables of
  invalid codes and the default limit: the tables at which the concrete inputs below are
  evaluated, none of which holds another reference.
\<close>

definition xml_entities :: entities where
  "xml_entities =
     \<lparr> html5 = map_of
         [(u ''amp;'', u ''&''), (u ''amp'', u ''&''), (u ''lt;'', u ''<''), (u ''lt'', u ''<''),
          (u ''gt;'', u ''>''), (u ''gt'', u ''>''), (u ''quot;'', [34]), (u ''quot'', [34]),
          (u ''apos;'', [39])],
       invalid_charrefs = Map.empty,
       invalid_codepoints = (\<lambda>n. False),
       max_str_digits = 4300 \<rparr>"

section \<open>The transcript splitter\<close>

text \<open>Iterating a value, as \<open>parts += x\<close> does: a string gives its characters, a dict its keys.\<close>

fun py_iter :: "json \<Rightarrow> error + json list" where
  "py_iter (JList xs) = Inr xs"
| "py_iter (JStr s) = Inr (map (\<lambda>c. JStr [c]) s)"
| "py_iter (JObj kvs) = Inr (map (\<lambda>kv. JStr (fst kv)) kvs)"
| "py_iter _ = Inl TypeError"

text \<open>
  \<open>first_assignment(parts)\<close>: \<open>p.get\<close> raises on a part that is no dict; the value under
  \<open>created_at\<close> is returned as it is, and \<open>None\<close> when the loop ends.
\<close>

fun first_assignment :: "json list \<Rightarrow> error + json" where
  "first_assignment [] = Inr JNull"
| "first_assignment (JObj kvs # ps) =
     (if dget kvs (u ''part_type'') JNull = JStr (u ''assignment'') \<and> has_key kvs (u ''created_at'')
      then Inr (dget kvs (u ''created_at'') JNull)
      else first_assignment ps)"
| "first_assignment (_ # ps) = Inl AttributeError"

text \<open>
  \<open>fin_id = (conv.get("ai_agent", {}).get("actor", {}) or conv.get("ai_agent", {})).get("id")\<close>
\<close>

definition fin_id :: "json \<Rightarrow> error + json" where
  "fin_id conv =
     bnd (py_get conv (u ''ai_agent'') (JObj [])) (\<lambda>agent.
     bnd (py_get agent (u ''actor'') (JObj [])) (\<lambda>actor.
     py_get (py_or actor agent) (u ''id'') JNull))"

text \<open>
  The part sequence: the root message when there is a true one, then what iterating
  \<open>conversation_parts.conversation_parts\<close> gives.
\<close>

definition conv_parts :: "json \<Rightarrow> error + json list" where
  "conv_parts conv =
     bnd (py_get conv (u ''conversation_message'') JNull) (\<lambda>m.
     bnd (py_get conv (u ''source'') JNull) (\<lambda>s.
     bnd (py_get conv (u ''conversation_parts'') (JObj [])) (\<lambda>w.
     bnd (py_get w (u ''conversation_parts'') (JList [])) (\<lambda>l.
     bnd (py_iter l) (\<lambda>more.
     Inr ((if truthy (py_or m s) then [py_or m s] else []) @ more))))))"

text \<open>\<open>cutoff and ts and ts >= cutoff\<close>\<close>

definition past_cutoff :: "json \<Rightarrow> json \<Rightarrow> error + bool" where
  "past_cutoff cutoff ts = (if truthy cutoff \<and> truthy ts then py_ge ts cutoff else Inr False)"

text \<open>
  \<open>is_fin\<close> of a part \<open>p\<close> (a dict) with author \<open>a\<close>. The \<open>or\<close> chain stops at its first
  true operand, so \<open>a.get\<close> is only reached, and can only raise, after the two tests on
  \<open>p\<close> have failed.
\<close>

definition is_fin :: "json \<Rightarrow> (str \<times> json) list \<Rightarrow> json \<Rightarrow> error + bool" where
  "is_fin fid p a =
     (if dget p (u ''part_type'') JNull = JStr (u ''ai_answer'') then Inr True
      else if has_key p (u ''ai_answer_type'') then Inr True
      else bnd (py_get a (u ''type'') JNull) (\<lambda>t.
        if t = JStr (u ''bot'') then Inr True
        else if truthy fid
          then bnd (py_get a (u ''id'') JNull) (\<lambda>i. Inr (py_eq i fid))
          else Inr False))"

text \<open>\<open>a.get("type") in {"contact","user","lead"}\<close>\<close>

definition is_customer :: "json \<Rightarrow> error + bool" where
  "is_customer a =
     bnd (py_get a (u ''type'') JNull) (\<lambda>t.
       if hashable t
       then Inr (t = JStr (u ''contact'') \<or> t = JStr (u ''user'') \<or> t = JStr (u ''lead''))
       else Inl TypeError)"

text \<open>
  One pass through the body of \<open>for p in parts\<close>, from the two line lists to the new ones;
  \<open>None\<close> is \<open>break\<close>.
\<close>

fun loop_body ::
  "entities \<Rightarrow> json \<Rightarrow> json \<Rightarrow> json \<Rightarrow> str list \<times> str list \<Rightarrow> error + (str list \<times> str list) option"
  where
  "loop_body E fid cutoff (JObj p) (user_lines, convo_lines) =
     bnd (past_cutoff cutoff (dget p (u ''created_at'') JNull)) (\<lambda>stop.
     if stop then Inr None
     else bnd (strip_html E (dget p (u ''body'') (JStr []))) (\<lambda>body.
       if body = [] then Inr (Some (user_lines, convo_lines))
       else bnd (is_fin fid p (dget p (u ''author'') (JObj []))) (\<lambda>fin.
         if fin then Inr (Some (user_lines, convo_lines @ [u ''[Fin]  '' @ body]))
         else bnd (is_customer (dget p (u ''author'') (JObj []))) (\<lambda>cust.
           if cust
           then Inr (Some (user_lines @ [body], convo_lines @ [u ''[User] '' @ body]))
           else Inr (Some (user_lines, convo_lines))))))"
| "loop_body E fid cutoff _ lines = Inl AttributeError"

fun split_loop ::
  "entities \<Rightarrow> json \<Rightarrow> json \<Rightarrow> json list \<Rightarrow> str list \<times> str list \<Rightarrow> error + str list \<times> str list"
  where
  "split_loop E fid cutoff [] lines = Inr lines"
| "split_loop E fid cutoff (p # ps) lines =
     bnd (loop_body E fid cutoff p lines) (\<lambda>r.
       case r of None \<Rightarrow> Inr lines | Some lines' \<Rightarrow> split_loop E fid cutoff ps lines')"

definition split :: "entities \<Rightarrow> json \<Rightarrow> error + str \<times> str" where
  "split E conv =
     bnd (fin_id conv) (\<lambda>fid.
     bnd (conv_parts conv) (\<lambda>parts.
     bnd (first_assignment parts) (\<lambda>cutoff.
     bnd (split_loop E fid cutoff parts ([], [])) (\<lambda>lines.
     Inr (join [10, 10] (fst lines), join [10, 10] (snd lines))))))"

section \<open>Collect and dedup\<close>

text \<open>
  The collaborators of the pipeline are parameters: the HTTP call \<open>fetch_full(cid)\<close> and
  \<open>datetime.utcfromtimestamp(t).isoformat()\<close>; the two searches are the lists of summaries
  that \<open>run_search\<close> yields.
\<close>

record collaborators =
  fetch_full :: "json \<Rightarrow> error + json"
  utc_isoformat :: "json \<Rightarrow> error + str"

text \<open>The module's globals \<open>seen\<close>, \<open>user_rows\<close>, \<open>convo_rows\<close>; a row is a dict.\<close>

record run_state =
  seen :: "json list"
  user_rows :: "(str \<times> json) list list"
  convo_rows :: "(str \<times> json) list list"

definition init_state :: run_state where
  "init_state = \<lparr> seen = [], user_rows = [], convo_rows = [] \<rparr>"

text \<open>What \<open>ingest\<close> computes between \<open>seen.add(cid)\<close> and the two appends.\<close>

definition new_rows ::
  "entities \<Rightarrow> collaborators \<Rightarrow> json \<Rightarrow> json \<Rightarrow> error + (str \<times> json) list \<times> (str \<times> json) list"
  where
  "new_rows E X s cid =
     bnd (fetch_full X cid) (\<lambda>conv.
     bnd (split E conv) (\<lambda>txt.
     bnd (subscript s (u ''created_at'')) (\<lambda>created.
     bnd (utc_isoformat X created) (\<lambda>iso.
     bnd (subscript s (u ''ai_agent'')) (\<lambda>agent.
     bnd (py_get agent (u ''rating'') JNull) (\<lambda>rating.
     Inr ([(u ''id'', cid), (u ''created_at'', JStr iso), (u ''rating'', rating),
           (u ''user_messages'', JStr (fst txt))],
          [(u ''id'', cid), (u ''created_at'', JStr iso), (u ''rating'', rating),
           (u ''full_conversation'', JStr (snd txt))])))))))"

text \<open>
  \<open>ingest(s)\<close> returns the exception it raised, if any, and the globals as it left them.
\<close>

definition ingest :: "entities \<Rightarrow> collaborators \<Rightarrow> json \<Rightarrow> run_state \<Rightarrow> error option \<times> run_state" where
  "ingest E X s st =
     (case subscript s (u ''id'') of
        Inl e \<Rightarrow> (Some e, st)
      | Inr cid \<Rightarrow>
          if \<not> hashable cid then (Some TypeError, st)
          else if list_ex (py_eq cid) (seen st) then (None, st)
          else
            (case new_rows E X s cid of
               Inl e \<Rightarrow> (Some e, st\<lparr>seen := seen st @ [cid]\<rparr>)
             | Inr rows \<Rightarrow>
                 (None, st\<lparr>seen := seen st @ [cid],
                           user_rows := user_rows st @ [fst rows],
                           convo_rows := convo_rows st @ [snd rows]\<rparr>)))"

text \<open>\<open>for c in run_search(...): ingest(c)\<close>: an exception ends the run.\<close>

fun ingest_all :: "entities \<Rightarrow> collaborators \<Rightarrow> json list \<Rightarrow> run_state \<Rightarrow> error option \<times> run_state" where
  "ingest_all E X [] st = (None, st)"
| "ingest_all E X (s # ss) st =
     (case ingest E X s st of
        (Some e, st') \<Rightarrow> (Some e, st')
      | (None, st') \<Rightarrow> ingest_all E X ss st')"

definition collect :: "entities \<Rightarrow> collaborators \<Rightarrow> json list \<Rightarrow> json list \<Rightarrow> error option \<times> run_state" where
  "collect E X escalated low_csat =
     (case ingest_all E X escalated init_state of
        (Some e, st) \<Rightarrow> (Some e, st)
      | (None, st) \<Rightarrow> ingest_all E X low_csat st)"

section \<open>The details of the scenarios\<close>

text \<open>Scenario A: one root message of a contact, no parts.\<close>

definition message_A :: json where
  "message_A = JObj [(u ''author'', JObj [(u ''type'', JStr (u ''contact''))]),
                     (u ''body'', JStr (u ''<p>Hi</p>''))]"

text \<open>
  Scenario B: an agent part, an assignment at 100 and a reply at 200 whose other fields
  \<open>reply\<close> are left open.
\<close>

definition agent_B :: json where
  "agent_B = JObj [(u ''part_type'', JStr (u ''ai_answer'')), (u ''body'', JStr (u ''Hello&amp;''))]"

definition assignment_B :: json where
  "assignment_B = JObj [(u ''part_type'', JStr (u ''assignment'')), (u ''created_at'', JInt 100)]"

definition detail_B :: "(str \<times> json) list \<Rightarrow> json" where
  "detail_B reply =
     JObj [(u ''conversation_parts'', JObj [(u ''conversation_parts'',
        JList [agent_B, assignment_B, JObj ((u ''created_at'', JInt 200) # reply)])])]"

text \<open>A detail with the given conversation parts and nothing else.\<close>

definition detail_of :: "json list \<Rightarrow> json" where
  "detail_of parts = JObj [(u ''conversation_parts'', JObj [(u ''conversation_parts'', JList parts)])]"

text \<open>An assignment at time 0 and the reply of a contact at time 5.\<close>

definition assignment_zero :: json where
  "assignment_zero = JObj [(u ''part_type'', JStr (u ''assignment'')), (u ''created_at'', JInt 0)]"

definition reply_five :: json where
  "reply_five = JObj [(u ''created_at'', JInt 5), (u ''body'', JStr (u ''Hi'')),
                      (u ''author'', JObj [(u ''type'', JStr (u ''contact''))])]"

text \<open>
  A detail whose agent actor id is 0, with the one part of an admin whose id is 0, and the
  fields of a part whose author is null.
\<close>

definition part_id_zero :: "(str \<times> json) list" where
  "part_id_zero = [(u ''body'', JStr (u ''x'')),
                   (u ''author'', JObj [(u ''id'', JInt 0), (u ''type'', JStr (u ''admin''))])]"

definition detail_id_zero :: json where
  "detail_id_zero =
     JObj [(u ''ai_agent'', JObj [(u ''actor'', JObj [(u ''id'', JInt 0)])]),
           (u ''conversation_parts'', JObj [(u ''conversation_parts'', JList [JObj part_id_zero])])]"

definition part_author_null :: "(str \<times> json) list" where
  "part_author_null = [(u ''body'', JStr (u ''x'')), (u ''author'', JNull)]"

text \<open>The fields of a part of an admin whose id is \<open>fin\<close>.\<close>

definition part_id_fin :: "(str \<times> json) list" where
  "part_id_fin = [(u ''body'', JStr (u ''x'')),
                  (u ''author'', JObj [(u ''id'', JStr (u ''fin'')), (u ''type'', JStr (u ''admin''))])]"

text \<open>Scenario C: the summary of conversation 42, and collaborators that always answer.\<close>

definition X_demo :: collaborators where
  "X_demo = \<lparr> fetch_full = (\<lambda>cid. Inr (JObj [])),
               utc_isoformat = (\<lambda>t. Inr (u ''1970-01-01T00:00:00'')) \<rparr>"

definition summary_42 :: json where
  "summary_42 = JObj [(u ''id'', JStr (u ''42'')), (u ''created_at'', JInt 0),
                      (u ''ai_agent'', JObj [])]"

section \<open>Rows and runs\<close>

text \<open>The id of a row, and two rows that carry the same id, creation time and rating.\<close>

definition row_id :: "(str \<times> json) list \<Rightarrow> json" where
  "row_id r = dget r (u ''id'') JNull"

definition same_summary :: "(str \<times> json) list \<Rightarrow> (str \<times> json) list \<Rightarrow> bool" where
  "same_summary a b =
     (has_key a (u ''id'') \<and> map_of a (u ''id'') = map_of b (u ''id'')
      \<and> has_key a (u ''created_at'') \<and> map_of a (u ''created_at'') = map_of b (u ''created_at'')
      \<and> has_key a (u ''rating'') \<and> map_of a (u ''rating'') = map_of b (u ''rating''))"

text \<open>A summary whose \<open>s["id"]\<close> equals \<open>cid\<close>.\<close>

definition has_id :: "json \<Rightarrow> json \<Rightarrow> bool" where
  "has_id cid s = (case subscript s (u ''id'') of Inr c \<Rightarrow> py_eq c cid | Inl e \<Rightarrow> False)"

text \<open>
  What holds of the globals while no call has raised: the rows are those of the ids seen,
  in order, and no two ids seen are equal.
\<close>

definition consistent :: "run_state \<Rightarrow> bool" where
  "consistent st =
     (map row_id (user_rows st) = seen st \<and> map row_id (convo_rows st) = seen st
      \<and> distinct (map canon (seen st)))"

section \<open>The words of the specification\<close>

text \<open>
  Authorship by the four signals and the three customer types (section 4.2, step 6), the
  first true condition winning; \<open>known\<close> says whether the agent actor id counts as known.
\<close>

datatype role = Agent | Customer | Ignored

definition author_field :: "(str \<times> json) list \<Rightarrow> str \<Rightarrow> json" where
  "author_field p k = (case dget p (u ''author'') (JObj []) of JObj a \<Rightarrow> dget a k JNull | _ \<Rightarrow> JNull)"

definition classify_with :: "bool \<Rightarrow> json \<Rightarrow> (str \<times> json) list \<Rightarrow> role" where
  "classify_with known fid p =
     (if dget p (u ''part_type'') JNull = JStr (u ''ai_answer'')
         \<or> has_key p (u ''ai_answer_type'')
         \<or> author_field p (u ''type'') = JStr (u ''bot'')
         \<or> (known \<and> py_eq (author_field p (u ''id'')) fid)
      then Agent
      else if author_field p (u ''type'') = JStr (u ''contact'')
              \<or> author_field p (u ''type'') = JStr (u ''user'')
              \<or> author_field p (u ''type'') = JStr (u ''lead'')
      then Customer
      else Ignored)"

text \<open>
  The specification's words: the agent actor id is known when there is one, that is when
  \<open>.get("id")\<close> did not give \<open>None\<close>.
\<close>

definition spec_classify :: "json \<Rightarrow> (str \<times> json) list \<Rightarrow> role" where
  "spec_classify fid p = classify_with (fid \<noteq> JNull) fid p"

text \<open>
  The parts the loop reaches: those before the first part at which the test of line 92
  is true.
\<close>

definition stops :: "json \<Rightarrow> json \<Rightarrow> bool" where
  "stops cutoff p =
     (case p of JObj kvs \<Rightarrow> past_cutoff cutoff (dget kvs (u ''created_at'') JNull) = Inr True
      | _ \<Rightarrow> False)"

definition kept :: "json \<Rightarrow> json list \<Rightarrow> json list" where
  "kept cutoff ps = takeWhile (\<lambda>p. \<not> stops cutoff p) ps"

text \<open>The last line of \<open>split\<close>: the two joins.\<close>

definition joined :: "str list \<times> str list \<Rightarrow> error + str \<times> str" where
  "joined lines = Inr (join [10, 10] (fst lines), join [10, 10] (snd lines))"

section \<open>Properties of the normalizer\<close>

lemmas py_simps = bnd_def py_or_def dget_def has_key_def

lemmas html_simps = strip_html_def unescape_def strip_def isspace_def charref_match_def
  is_name_char_def opt_semicolon_def replace_charref_def

lemmas split_simps = split_def fin_id_def conv_parts_def past_cutoff_def is_fin_def
  is_customer_def

lemma strip_html_JStr:
  "strip_html E (JStr x) = bnd (unescape E (TAG_RE_sub x)) (\<lambda>t. Inr (strip t))"
  by (cases x) (simp_all add: strip_html_def py_or_def unescape_def strip_def bnd_def)

lemma TAG_RE_sub_no_lt: "60 \<notin> set s \<Longrightarrow> TAG_RE_sub s = s"
  by (induction s) simp_all

lemma dropWhile_rev_dropWhile:
  "dropWhile P (rev (dropWhile P (rev (dropWhile P s)))) = rev (dropWhile P (rev (dropWhile P s)))"
proof -
  define t where "t = dropWhile P s"
  define r where "r = rev (dropWhile P (rev t))"
  have "r @ rev (takeWhile P (rev t)) = rev (takeWhile P (rev t) @ dropWhile P (rev t))"
    by (simp only: r_def rev_append)
  also have "\<dots> = t" by simp
  finally have split: "r @ rev (takeWhile P (rev t)) = t" .
  have "dropWhile P r = r"
  proof (cases r)
    case Nil
    then show ?thesis by simp
  next
    case (Cons x xs)
    from split [symmetric] Cons have "t = x # (xs @ rev (takeWhile P (rev t)))" by simp
    then have "t \<noteq> []" and "hd t = x" by (metis list.distinct(1), metis list.sel(1))
    moreover have "t \<noteq> [] \<Longrightarrow> \<not> P (hd t)" unfolding t_def by (rule hd_dropWhile)
    ultimately have "\<not> P x" by simp
    with Cons show ?thesis by simp
  qed
  then show ?thesis by (simp add: r_def t_def)
qed

lemma strip_idem: "strip (strip s) = strip s"
  by (simp add: strip_def dropWhile_rev_dropWhile)

text \<open>
  C1, as stated, fails: decoding \<open>&amp;amp;\<close> gives \<open>&amp;\<close>, which a second pass decodes
  again to \<open>&\<close>.
\<close>

theorem strip_html_counterexample:
  "bnd (strip_html xml_entities (JStr (u ''&amp;amp;''))) (\<lambda>y. strip_html xml_entities (JStr y))
     \<noteq> strip_html xml_entities (JStr (u ''&amp;amp;''))"
  by (simp add: py_simps html_simps xml_entities_def)

text \<open>
  C1, amended: for every string \<open>x\<close> whose normalized text \<open>y\<close> contains neither \<open><\<close> (60)
  nor \<open>&\<close> (38), normalizing \<open>y\<close> again gives \<open>y\<close>: \<open>strip_html(strip_html(x)) = strip_html(x)\<close>.
\<close>

theorem strip_html_idempotent:
  assumes "strip_html E (JStr x) = Inr y" and "60 \<notin> set y" and "38 \<notin> set y"
  shows "bnd (strip_html E (JStr x)) (\<lambda>y. strip_html E (JStr y)) = strip_html E (JStr x)"
proof -
  from assms(1) obtain t where y: "y = strip t"
    by (auto simp: strip_html_JStr bnd_def split: sum.splits)
  have "strip_html E (JStr y) = Inr (strip y)"
    using assms(2,3) by (simp add: strip_html_JStr TAG_RE_sub_no_lt unescape_def bnd_def)
  also have "strip y = y" unfolding y by (rule strip_idem)
  finally show ?thesis using assms(1) by (simp add: bnd_def)
qed

theorem strip_html_idempotent_witness:
  "strip_html xml_entities (JStr (u '' <p>Hi</p> '')) = Inr (u ''Hi'')
   \<and> bnd (strip_html xml_entities (JStr (u '' <p>Hi</p> ''))) (\<lambda>y. strip_html xml_entities (JStr y))
     = strip_html xml_entities (JStr (u '' <p>Hi</p> ''))"
proof -
  have a: "strip_html xml_entities (JStr (u '' <p>Hi</p> '')) = Inr (u ''Hi'')"
    by (simp add: py_simps html_simps)
  have b: "60 \<notin> set (u ''Hi'')" and c: "38 \<notin> set (u ''Hi'')" by simp_all
  from strip_html_idempotent [OF a b c] a show ?thesis by simp
qed

section \<open>Properties of the splitter\<close>

text \<open>
  C8 (scenario A): a detail with the one root message of a contact with body \<open><p>Hi</p>\<close>,
  under either key of the root, and no parts gives the user transcript \<open>Hi\<close> and the full
  transcript \<open>[User] Hi\<close>.
\<close>

theorem scenario_A:
  "split E (JObj [(u ''conversation_message'', message_A)]) = Inr (u ''Hi'', u ''[User] Hi'')
   \<and> split E (JObj [(u ''source'', message_A)]) = Inr (u ''Hi'', u ''[User] Hi'')"
  by (simp add: message_A_def py_simps html_simps split_simps)

theorem scenario_A_witness:
  "split xml_entities (JObj [(u ''conversation_message'', message_A)])
     = Inr (u ''Hi'', u ''[User] Hi'')"
  using scenario_A [of xml_entities] by simp

text \<open>
  C7, as stated, fails: with \<open>ai_agent\<close> null the part sequence is empty, and \<open>split\<close>
  raises at its first statement, before it builds the parts.
\<close>

theorem split_empty_counterexample:
  "conv_parts (JObj [(u ''ai_agent'', JNull)]) = Inr []
   \<and> split xml_entities (JObj [(u ''ai_agent'', JNull)]) = Inl AttributeError"
  by (simp add: split_simps py_simps)

text \<open>
  C7, amended: a detail for which reading the agent actor id does not raise (\<open>ai_agent\<close>
  absent or a dict whose actor is absent, a false value or a dict) and whose part sequence
  (root message plus conversation parts) is empty gives the pair of empty strings.
\<close>

theorem split_empty:
  assumes "fin_id conv = Inr fid" and "conv_parts conv = Inr []"
  shows "split E conv = Inr ([], [])"
  using assms by (simp add: split_def bnd_def)

theorem split_empty_witness:
  "fin_id (JObj []) = Inr JNull \<and> conv_parts (JObj []) = Inr []
   \<and> split xml_entities (JObj []) = Inr ([], [])"
proof -
  have a: "fin_id (JObj []) = Inr JNull" by (simp add: split_simps py_simps)
  have b: "conv_parts (JObj []) = Inr []" by (simp add: split_simps py_simps)
  from split_empty [OF a b] a b show ?thesis by simp
qed

text \<open>
  C2 (scenario B), as stated, fails: the agent's line is written with two spaces after
  \<open>[Fin]\<close>, so the full transcript is not \<open>[Fin] Hello&\<close>.
\<close>

theorem scenario_B_counterexample:
  "map_sum id snd (split xml_entities (detail_B [])) \<noteq> Inr (u ''[Fin] Hello&'')"
  by (simp add: detail_B_def agent_B_def assignment_B_def py_simps html_simps split_simps
      xml_entities_def)

text \<open>
  C2, amended: in scenario B the cutoff is 100, the reply at 200 is excluded whatever it
  holds, the user transcript is empty and the full transcript is \<open>[Fin]  Hello&\<close>, with the
  two spaces that the code puts after \<open>[Fin]\<close>.
\<close>

theorem scenario_B:
  assumes "html5 E (u ''amp;'') = Some (u ''&'')"
  shows "conv_parts (detail_B reply)
       = Inr [agent_B, assignment_B, JObj ((u ''created_at'', JInt 200) # reply)]
    \<and> first_assignment [agent_B, assignment_B, JObj ((u ''created_at'', JInt 200) # reply)]
       = Inr (JInt 100)
    \<and> split E (detail_B reply) = Inr ([], u ''[Fin]  Hello&'')"
  using assms
  by (simp add: detail_B_def agent_B_def assignment_B_def py_simps html_simps split_simps)

theorem scenario_B_witness:
  "html5 xml_entities (u ''amp;'') = Some (u ''&'')
   \<and> split xml_entities (detail_B [(u ''body'', JStr (u ''human''))]) = Inr ([], u ''[Fin]  Hello&'')"
proof -
  have a: "html5 xml_entities (u ''amp;'') = Some (u ''&'')" by (simp add: xml_entities_def)
  from scenario_B [OF a, of "[(u ''body'', JStr (u ''human''))]"] a show ?thesis by simp
qed

lemma split_joined:
  "split E conv =
     bnd (fin_id conv) (\<lambda>fid. bnd (conv_parts conv) (\<lambda>parts. bnd (first_assignment parts) (\<lambda>cutoff.
       bnd (split_loop E fid cutoff parts ([], [])) joined)))"
  by (simp add: split_def joined_def [abs_def])

lemma stops_no_timestamp: "\<not> has_key kvs (u ''created_at'') \<Longrightarrow> \<not> stops c (JObj kvs)"
  by (simp add: stops_def past_cutoff_def has_key_def dget_def)





lemma loop_body_break: "(loop_body E fid cutoff p lines = Inr None) = stops cutoff p"
proof (cases p)
  case (JObj kvs)
  obtain ul cl where l: "lines = (ul, cl)" by (cases lines)
  show ?thesis unfolding JObj l
    by (auto simp: stops_def bnd_def split: sum.splits)
qed (simp_all add: stops_def)

lemma split_loop_kept: "split_loop E fid cutoff ps lines = split_loop E fid cutoff (kept cutoff ps) lines"
proof (induction ps arbitrary: lines)
  case Nil
  show ?case by (simp add: kept_def)
next
  case (Cons p ps)
  show ?case
  proof (cases "stops cutoff p")
    case True
    then have "loop_body E fid cutoff p lines = Inr None" by (simp add: loop_body_break)
    with True show ?thesis by (simp add: kept_def bnd_def)
  next
    case False
    then have k: "kept cutoff (p # ps) = p # kept cutoff ps" by (simp add: kept_def)
    show ?thesis unfolding k using Cons.IH
      by (simp add: bnd_def split: sum.splits option.splits)
  qed
qed

lemma kept_before_cutoff:
  assumes "JObj kvs \<in> set (kept (JInt n) ps)" and "n \<noteq> 0"
    and "dget kvs (u ''created_at'') JNull = JInt t" and "t \<noteq> 0"
  shows "t < n"
proof -
  from assms(1) have "\<not> stops (JInt n) (JObj kvs)"
    unfolding kept_def by (rule set_takeWhileD [THEN conjunct2])
  with assms(2-4) show ?thesis by (simp add: stops_def past_cutoff_def)
qed

text \<open>
  C5, as stated, fails twice. An agent actor id that is resolved to 0 is a false value, so
  line 101 never compares it: the part whose author has that id is agent-authored in the
  claim's words and adds no line. A part whose author is null is ignored in the claim's
  words and makes line 100 raise.
\<close>

theorem classification_counterexample:
  "fin_id detail_id_zero = Inr (JInt 0)
   \<and> spec_classify (JInt 0) part_id_zero = Agent
   \<and> loop_body xml_entities (JInt 0) JNull (JObj part_id_zero) ([], []) = Inr (Some ([], []))
   \<and> split xml_entities detail_id_zero = Inr ([], [])
   \<and> spec_classify JNull part_author_null = Ignored
   \<and> loop_body xml_entities JNull JNull (JObj part_author_null) ([], []) = Inl AttributeError"
  by (simp add: detail_id_zero_def part_id_zero_def part_author_null_def spec_classify_def
      classify_with_def author_field_def py_eq_def py_simps html_simps split_simps)

text \<open>
  C5, amended: a part the loop reaches (not past the cutoff, with a non-empty normalized
  body \<open>b\<close>) that carries an agent marker (\<open>part_type\<close> \<open>ai_answer\<close> or the key
  \<open>ai_answer_type\<close>), or whose author is a dict with a type that can be hashed, adds its line
  by the classification in which the agent actor id counts as known when it is a true
  value: an agent's line to the full transcript only, a customer's line to both, no line
  otherwise.
\<close>

theorem classification:
  assumes "past_cutoff cutoff (dget p (u ''created_at'') JNull) = Inr False"
    and "strip_html E (dget p (u ''body'') (JStr [])) = Inr b" and "b \<noteq> []"
    and "dget p (u ''part_type'') JNull = JStr (u ''ai_answer'')
      \<or> has_key p (u ''ai_answer_type'')
      \<or> (dget p (u ''author'') (JObj []) = JObj a \<and> hashable (dget a (u ''type'') JNull))"
  shows "loop_body E fid cutoff (JObj p) (user_lines, convo_lines) =
     Inr (Some (case classify_with (truthy fid) fid p of
        Agent \<Rightarrow> (user_lines, convo_lines @ [u ''[Fin]  '' @ b])
      | Customer \<Rightarrow> (user_lines @ [b], convo_lines @ [u ''[User] '' @ b])
      | Ignored \<Rightarrow> (user_lines, convo_lines)))"
proof (cases "dget p (u ''part_type'') JNull = JStr (u ''ai_answer'')
      \<or> has_key p (u ''ai_answer_type'')")
  case True
  with assms(1-3) show ?thesis
    by (auto simp: classify_with_def is_fin_def bnd_def)
next
  case False
  with assms(4) have "dget p (u ''author'') (JObj []) = JObj a"
    and "hashable (dget a (u ''type'') JNull)"
    by blast+
  with assms(1-3) False show ?thesis
    by (simp add: classify_with_def author_field_def is_fin_def is_customer_def bnd_def)
qed

theorem classification_witness:
  "loop_body xml_entities (JStr (u ''fin'')) JNull (JObj part_id_fin) ([], [])
     = Inr (Some ([], [u ''[Fin]  x'']))"
proof -
  let ?a = "[(u ''id'', JStr (u ''fin'')), (u ''type'', JStr (u ''admin''))]"
  have a: "past_cutoff JNull (dget part_id_fin (u ''created_at'') JNull) = Inr False"
    by (simp add: past_cutoff_def)
  have b: "strip_html xml_entities (dget part_id_fin (u ''body'') (JStr [])) = Inr (u ''x'')"
    by (simp add: part_id_fin_def py_simps html_simps)
  have c: "u ''x'' \<noteq> []" by simp
  have d: "dget part_id_fin (u ''part_type'') JNull = JStr (u ''ai_answer'')
      \<or> has_key part_id_fin (u ''ai_answer_type'')
      \<or> (dget part_id_fin (u ''author'') (JObj []) = JObj ?a \<and> hashable (dget ?a (u ''type'') JNull))"
    by (simp add: part_id_fin_def dget_def)
  have f: "classify_with (truthy (JStr (u ''fin''))) (JStr (u ''fin'')) part_id_fin = Agent"
    by (simp add: classify_with_def author_field_def part_id_fin_def py_eq_def py_simps)
  from classification [OF a b c d, of "JStr (u ''fin'')" "[]" "[]"] f show ?thesis
    by simp
qed

text \<open>
  C3, as stated, fails at the cutoff 0: the assignment at time 0 stops nothing, and the reply
  at time 5, at or after the cutoff, gives both transcripts their text.
\<close>

theorem truncation_counterexample:
  "conv_parts (detail_of [assignment_zero, reply_five]) = Inr [assignment_zero, reply_five]
   \<and> first_assignment [assignment_zero, reply_five] = Inr (JInt 0)
   \<and> py_get reply_five (u ''created_at'') JNull = Inr (JInt 5)
   \<and> py_ge (JInt 5) (JInt 0) = Inr True
   \<and> split xml_entities (detail_of [assignment_zero]) = Inr ([], [])
   \<and> split xml_entities (detail_of [assignment_zero, reply_five]) = Inr (u ''Hi'', u ''[User] Hi'')"
  by (simp add: detail_of_def assignment_zero_def reply_five_def py_simps html_simps split_simps)

text \<open>
  C3, amended: when the cutoff (the \<open>created_at\<close> of the first assignment part that has
  the key) is an integer other than 0, both transcripts are made of the parts before the
  first stop alone, and none of these has a timestamp that is an integer other than 0 and
  at or after the cutoff; a part without a timestamp never stops the loop.
\<close>

theorem truncation:
  assumes "fin_id conv = Inr fid" and "conv_parts conv = Inr ps"
    and "first_assignment ps = Inr (JInt n)" and "n \<noteq> 0"
  shows "split E conv = bnd (split_loop E fid (JInt n) (kept (JInt n) ps) ([], [])) joined
    \<and> (\<forall>kvs t. JObj kvs \<in> set (kept (JInt n) ps) \<and> dget kvs (u ''created_at'') JNull = JInt t
          \<and> t \<noteq> 0 \<longrightarrow> t < n)
    \<and> (\<forall>kvs c lines. \<not> has_key kvs (u ''created_at'')
          \<longrightarrow> loop_body E fid c (JObj kvs) lines \<noteq> Inr None)"
proof (intro conjI allI impI)
  show "split E conv = bnd (split_loop E fid (JInt n) (kept (JInt n) ps) ([], [])) joined"
    using assms(1-3) split_loop_kept [of E fid "JInt n" ps] by (simp add: split_joined bnd_def)
next
  fix kvs t
  assume "JObj kvs \<in> set (kept (JInt n) ps) \<and> dget kvs (u ''created_at'') JNull = JInt t \<and> t \<noteq> 0"
  with assms(4) show "t < n" by (blast intro: kept_before_cutoff)
next
  fix kvs c lines
  assume "\<not> has_key kvs (u ''created_at'')"
  then show "loop_body E fid c (JObj kvs) lines \<noteq> Inr None"
    by (simp add: loop_body_break stops_no_timestamp)
qed

theorem truncation_witness:
  "fin_id (detail_B []) = Inr JNull
   \<and> conv_parts (detail_B []) = Inr [agent_B, assignment_B, JObj [(u ''created_at'', JInt 200)]]
   \<and> first_assignment [agent_B, assignment_B, JObj [(u ''created_at'', JInt 200)]] = Inr (JInt 100)
   \<and> kept (JInt 100) [agent_B, assignment_B, JObj [(u ''created_at'', JInt 200)]] = [agent_B]
   \<and> split xml_entities (detail_B []) = bnd (split_loop xml_entities JNull (JInt 100) [agent_B] ([], [])) joined"
proof -
  let ?ps = "[agent_B, assignment_B, JObj [(u ''created_at'', JInt 200)]]"
  have a: "fin_id (detail_B []) = Inr JNull" by (simp add: detail_B_def split_simps py_simps)
  have b: "conv_parts (detail_B []) = Inr ?ps" by (simp add: detail_B_def split_simps py_simps)
  have c: "first_assignment ?ps = Inr (JInt 100)"
    by (simp add: agent_B_def assignment_B_def py_simps)
  have d: "(100::int) \<noteq> 0" by simp
  have k: "kept (JInt 100) ?ps = [agent_B]"
    by (simp add: kept_def stops_def agent_B_def assignment_B_def py_simps past_cutoff_def)
  from truncation [OF a b c d, of xml_entities] a b c k show ?thesis by simp
qed



text \<open>
  C4, as stated, fails: with \<open>ai_agent\<close> null, \<open>conv.get("ai_agent", {})\<close> is \<open>None\<close> and
  the next \<open>.get\<close> raises.
\<close>

theorem missing_fields_counterexample:
  "split xml_entities (JObj [(u ''ai_agent'', JNull)]) = Inl AttributeError"
  by (simp add: split_simps py_simps)

text \<open>
  C4, amended: a detail with no true root message under either key, with conversation
  parts absent or empty, and with agent metadata absent or a dict whose actor is absent, null
  or a dict, makes \<open>split\<close> return the two empty transcripts without raising.
\<close>

theorem missing_fields:
  assumes "dget kvs (u ''ai_agent'') (JObj []) = JObj ag"
    and "dget ag (u ''actor'') (JObj []) = JNull \<or> dget ag (u ''actor'') (JObj []) = JObj ac"
    and "\<not> truthy (dget kvs (u ''conversation_message'') JNull)"
    and "\<not> truthy (dget kvs (u ''source'') JNull)"
    and "dget kvs (u ''conversation_parts'') (JObj []) = JObj w"
    and "dget w (u ''conversation_parts'') (JList []) = JList []"
  shows "split E (JObj kvs) = Inr ([], [])"
  using assms by (auto simp: split_def fin_id_def conv_parts_def bnd_def py_or_def)

theorem missing_fields_witness:
  "split xml_entities (JObj []) = Inr ([], [])
   \<and> split xml_entities (JObj [(u ''ai_agent'', JObj [(u ''actor'', JNull)]),
        (u ''source'', JNull), (u ''conversation_parts'', JObj [])]) = Inr ([], [])"
proof -
  have "split xml_entities (JObj []) = Inr ([], [])"
    by (rule missing_fields [where ag = "[]" and ac = "[]" and w = "[]"]) (simp_all add: dget_def)
  moreover have "split xml_entities (JObj [(u ''ai_agent'', JObj [(u ''actor'', JNull)]),
        (u ''source'', JNull), (u ''conversation_parts'', JObj [])]) = Inr ([], [])"
    by (rule missing_fields [where ag = "[(u ''actor'', JNull)]" and ac = "[]" and w = "[]"])
      (simp_all add: dget_def)
  ultimately show ?thesis by simp
qed

section \<open>Properties of the pipeline\<close>

lemma list_ex_py_eq: "list_ex (py_eq c) xs = (canon c \<in> canon ` set xs)"
  by (auto simp: list_ex_iff py_eq_def)

lemma new_rows_id:
  assumes "new_rows E X s cid = Inr rows"
  shows "row_id (fst rows) = cid" and "row_id (snd rows) = cid"
  using assms
  by (auto simp: new_rows_def bnd_def row_id_def dget_def split: sum.splits)

lemma new_rows_same:
  assumes "new_rows E X s cid = Inr rows"
  shows "same_summary (fst rows) (snd rows)"
  using assms
  by (auto simp: new_rows_def bnd_def same_summary_def has_key_def split: sum.splits)

lemma ingest_unfold:
  "ingest E X s st =
     (case subscript s (u ''id'') of
        Inl e \<Rightarrow> (Some e, st)
      | Inr cid \<Rightarrow>
          if \<not> hashable cid then (Some TypeError, st)
          else if canon cid \<in> canon ` set (seen st) then (None, st)
          else
            (case new_rows E X s cid of
               Inl e \<Rightarrow> (Some e, st\<lparr>seen := seen st @ [cid]\<rparr>)
             | Inr rows \<Rightarrow>
                 (None, st\<lparr>seen := seen st @ [cid],
                           user_rows := user_rows st @ [fst rows],
                           convo_rows := convo_rows st @ [snd rows]\<rparr>)))"
  by (simp only: ingest_def list_ex_py_eq)

lemma ingest_None:
  assumes "ingest E X s st = (None, st')"
  shows "\<exists>cid. subscript s (u ''id'') = Inr cid \<and>
     ((canon cid \<in> canon ` set (seen st) \<and> st' = st) \<or>
      (canon cid \<notin> canon ` set (seen st) \<and>
       (\<exists>rows. new_rows E X s cid = Inr rows \<and>
          st' = st\<lparr>seen := seen st @ [cid], user_rows := user_rows st @ [fst rows],
                    convo_rows := convo_rows st @ [snd rows]\<rparr>)))"
proof (cases "subscript s (u ''id'')")
  case (Inl e)
  with assms show ?thesis by (simp add: ingest_unfold)
next
  case (Inr cid)
  show ?thesis
  proof (cases "canon cid \<in> canon ` set (seen st)")
    case True
    with Inr assms show ?thesis by (simp add: ingest_unfold split: if_splits)
  next
    case False
    show ?thesis
    proof (cases "new_rows E X s cid")
      case (Inl e)
      with Inr False assms show ?thesis by (simp add: ingest_unfold split: if_splits)
    next
      case new: (Inr rows)
      with Inr False assms
      have "st' = st\<lparr>seen := seen st @ [cid], user_rows := user_rows st @ [fst rows],
                    convo_rows := convo_rows st @ [snd rows]\<rparr>"
        by (simp add: ingest_unfold split: if_splits)
      with Inr False new show ?thesis by blast
    qed
  qed
qed

lemma ingest_rows:
  "(user_rows (snd (ingest E X s st)) = user_rows st
      \<and> convo_rows (snd (ingest E X s st)) = convo_rows st)
   \<or> (\<exists>rows. same_summary (fst rows) (snd rows)
      \<and> user_rows (snd (ingest E X s st)) = user_rows st @ [fst rows]
      \<and> convo_rows (snd (ingest E X s st)) = convo_rows st @ [snd rows])"
proof (cases "subscript s (u ''id'')")
  case (Inl e)
  then show ?thesis by (simp add: ingest_unfold)
next
  case (Inr cid)
  show ?thesis
  proof (cases "new_rows E X s cid")
    case (Inl e)
    with Inr show ?thesis by (simp add: ingest_unfold)
  next
    case new: (Inr rows)
    from new have "same_summary (fst rows) (snd rows)" by (rule new_rows_same)
    with Inr new show ?thesis by (auto simp: ingest_unfold)
  qed
qed

lemma ingest_aligned:
  assumes "list_all2 same_summary (user_rows st) (convo_rows st)"
  shows "list_all2 same_summary (user_rows (snd (ingest E X s st))) (convo_rows (snd (ingest E X s st)))"
  using assms ingest_rows [of E X s st] by (auto simp: list_all2_appendI)

lemma ingest_all_aligned:
  assumes "list_all2 same_summary (user_rows st) (convo_rows st)"
  shows "list_all2 same_summary (user_rows (snd (ingest_all E X ss st)))
           (convo_rows (snd (ingest_all E X ss st)))"
  using assms
proof (induction ss arbitrary: st)
  case Nil
  then show ?case by simp
next
  case (Cons s ss)
  obtain r st1 where i: "ingest E X s st = (r, st1)" by (cases "ingest E X s st")
  from ingest_aligned [OF Cons.prems, of E X s] i
  have a: "list_all2 same_summary (user_rows st1) (convo_rows st1)" by simp
  show ?case
  proof (cases r)
    case None
    with i Cons.IH [OF a] show ?thesis by simp
  next
    case (Some e)
    with i a show ?thesis by simp
  qed
qed

lemma collect_append: "collect E X xs ys = ingest_all E X (xs @ ys) init_state"
proof -
  have "ingest_all E X (xs @ ys) st =
      (case ingest_all E X xs st of (Some e, st') \<Rightarrow> (Some e, st') | (None, st') \<Rightarrow> ingest_all E X ys st')"
    for st
    by (induction xs arbitrary: st) (auto split: prod.splits option.splits)
  then show ?thesis by (simp add: collect_def)
qed

lemma collect_demo:
  "collect xml_entities X_demo [summary_42] [summary_42] =
     (None, \<lparr> seen = [JStr (u ''42'')],
        user_rows = [[(u ''id'', JStr (u ''42'')), (u ''created_at'', JStr (u ''1970-01-01T00:00:00'')),
           (u ''rating'', JNull), (u ''user_messages'', JStr [])]],
        convo_rows = [[(u ''id'', JStr (u ''42'')), (u ''created_at'', JStr (u ''1970-01-01T00:00:00'')),
           (u ''rating'', JNull), (u ''full_conversation'', JStr [])]] \<rparr>)"
  by (simp add: collect_def ingest_def new_rows_def init_state_def X_demo_def summary_42_def
      split_simps py_simps py_eq_def)

text \<open>
  C9: in every run, whatever the two searches yield and wherever the run ends, the two row
  accumulators have the same length, and at every index the two rows carry the same id,
  creation time and rating. The searches being arbitrary, this is the state after every
  call of \<open>ingest\<close>, also after one that raised.
\<close>

theorem rows_aligned:
  "length (user_rows (snd (collect E X xs ys))) = length (convo_rows (snd (collect E X xs ys)))
   \<and> (\<forall>i < length (user_rows (snd (collect E X xs ys))).
        same_summary (user_rows (snd (collect E X xs ys)) ! i) (convo_rows (snd (collect E X xs ys)) ! i))"
proof -
  have "list_all2 same_summary (user_rows init_state) (convo_rows init_state)"
    by (simp add: init_state_def)
  then have "list_all2 same_summary (user_rows (snd (collect E X xs ys)))
      (convo_rows (snd (collect E X xs ys)))"
    unfolding collect_append by (rule ingest_all_aligned)
  then show ?thesis by (simp add: list_all2_conv_all_nth)
qed

theorem rows_aligned_witness:
  "length (user_rows (snd (collect xml_entities X_demo [summary_42] [summary_42]))) = 1
   \<and> length (convo_rows (snd (collect xml_entities X_demo [summary_42] [summary_42]))) = 1
   \<and> same_summary (user_rows (snd (collect xml_entities X_demo [summary_42] [summary_42])) ! 0)
       (convo_rows (snd (collect xml_entities X_demo [summary_42] [summary_42])) ! 0)"
proof -
  have l: "length (user_rows (snd (collect xml_entities X_demo [summary_42] [summary_42]))) = 1"
    by (simp add: collect_demo)
  with rows_aligned [of xml_entities X_demo "[summary_42]" "[summary_42]"] show ?thesis
    by simp
qed

lemma ingest_consistent:
  assumes "ingest E X s st = (None, st')" and "consistent st"
  shows "consistent st'"
proof -
  from ingest_None [OF assms(1)] obtain cid where
    c: "(canon cid \<in> canon ` set (seen st) \<and> st' = st) \<or>
      (canon cid \<notin> canon ` set (seen st) \<and>
       (\<exists>rows. new_rows E X s cid = Inr rows \<and>
          st' = st\<lparr>seen := seen st @ [cid], user_rows := user_rows st @ [fst rows],
                    convo_rows := convo_rows st @ [snd rows]\<rparr>))"
    by blast
  then show ?thesis
  proof
    assume "canon cid \<in> canon ` set (seen st) \<and> st' = st"
    with assms(2) show ?thesis by simp
  next
    assume a: "canon cid \<notin> canon ` set (seen st) \<and>
       (\<exists>rows. new_rows E X s cid = Inr rows \<and>
          st' = st\<lparr>seen := seen st @ [cid], user_rows := user_rows st @ [fst rows],
                    convo_rows := convo_rows st @ [snd rows]\<rparr>)"
    then obtain rows where r: "new_rows E X s cid = Inr rows"
      and st': "st' = st\<lparr>seen := seen st @ [cid], user_rows := user_rows st @ [fst rows],
                    convo_rows := convo_rows st @ [snd rows]\<rparr>"
      by blast
    from a have n: "canon cid \<notin> canon ` set (seen st)" by blast
    from assms(2) n show ?thesis
      unfolding st' by (simp add: consistent_def new_rows_id [OF r])
  qed
qed

text \<open>Rows of an id already seen are never added again.\<close>

lemma ingest_all_seen:
  assumes "ingest_all E X zs st = (None, st')" and "consistent st"
    and "canon cid \<in> canon ` set (seen st)"
  shows "filter (\<lambda>r. py_eq (row_id r) cid) (user_rows st') = filter (\<lambda>r. py_eq (row_id r) cid) (user_rows st)
    \<and> filter (\<lambda>r. py_eq (row_id r) cid) (convo_rows st') = filter (\<lambda>r. py_eq (row_id r) cid) (convo_rows st)"
  using assms
proof (induction zs arbitrary: st)
  case Nil
  then show ?case by simp
next
  case (Cons z zs)
  obtain r st1 where i: "ingest E X z st = (r, st1)" by (cases "ingest E X z st")
  with Cons.prems(1) have rn: "r = None" and rest: "ingest_all E X zs st1 = (None, st')"
    by (auto split: option.splits)
  from i rn have i': "ingest E X z st = (None, st1)" by simp
  have c1: "consistent st1" using i' Cons.prems(2) by (rule ingest_consistent)
  from ingest_None [OF i'] obtain c where
    c: "(canon c \<in> canon ` set (seen st) \<and> st1 = st) \<or>
      (canon c \<notin> canon ` set (seen st) \<and>
       (\<exists>rows. new_rows E X z c = Inr rows \<and>
          st1 = st\<lparr>seen := seen st @ [c], user_rows := user_rows st @ [fst rows],
                    convo_rows := convo_rows st @ [snd rows]\<rparr>))"
    by blast
  then have step: "canon cid \<in> canon ` set (seen st1)
    \<and> filter (\<lambda>r. py_eq (row_id r) cid) (user_rows st1) = filter (\<lambda>r. py_eq (row_id r) cid) (user_rows st)
    \<and> filter (\<lambda>r. py_eq (row_id r) cid) (convo_rows st1) = filter (\<lambda>r. py_eq (row_id r) cid) (convo_rows st)"
  proof
    assume "canon c \<in> canon ` set (seen st) \<and> st1 = st"
    with Cons.prems(3) show ?thesis by simp
  next
    assume a: "canon c \<notin> canon ` set (seen st) \<and>
       (\<exists>rows. new_rows E X z c = Inr rows \<and>
          st1 = st\<lparr>seen := seen st @ [c], user_rows := user_rows st @ [fst rows],
                    convo_rows := convo_rows st @ [snd rows]\<rparr>)"
    then obtain rows where r: "new_rows E X z c = Inr rows"
      and st1: "st1 = st\<lparr>seen := seen st @ [c], user_rows := user_rows st @ [fst rows],
                    convo_rows := convo_rows st @ [snd rows]\<rparr>"
      by blast
    from a Cons.prems(3) have "canon c \<noteq> canon cid" by auto
    then have "\<not> py_eq c cid" by (simp add: py_eq_def)
    with Cons.prems(3) show ?thesis
      unfolding st1 by (simp add: new_rows_id [OF r])
  qed
  from Cons.IH [OF rest c1] step show ?case by simp
qed

lemma consistent_no_rows:
  assumes "consistent st" and "canon cid \<notin> canon ` set (seen st)"
  shows "filter (\<lambda>r. py_eq (row_id r) cid) (user_rows st) = []"
    and "filter (\<lambda>r. py_eq (row_id r) cid) (convo_rows st) = []"
proof -
  have "\<not> py_eq (row_id r) cid" if "row_id r \<in> set (seen st)" for r
  proof
    assume "py_eq (row_id r) cid"
    then have "canon cid = canon (row_id r)" by (simp add: py_eq_def)
    also from that have "canon (row_id r) \<in> canon ` set (seen st)" by (rule imageI)
    finally show False using assms(2) by contradiction
  qed
  note n = this
  have "row_id r \<in> set (seen st)" if "r \<in> set (user_rows st)" for r
  proof -
    from assms(1) have "seen st = map row_id (user_rows st)" by (simp add: consistent_def)
    with that show ?thesis by simp
  qed
  with n show "filter (\<lambda>r. py_eq (row_id r) cid) (user_rows st) = []"
    by (simp add: filter_empty_conv)
  have "row_id r \<in> set (seen st)" if "r \<in> set (convo_rows st)" for r
  proof -
    from assms(1) have "seen st = map row_id (convo_rows st)" by (simp add: consistent_def)
    with that show ?thesis by simp
  qed
  with n show "filter (\<lambda>r. py_eq (row_id r) cid) (convo_rows st) = []"
    by (simp add: filter_empty_conv)
qed

lemma ingest_all_first:
  assumes "ingest_all E X zs st = (None, st')" and "consistent st"
    and "canon cid \<notin> canon ` set (seen st)" and "find (has_id cid) zs = Some s0"
  shows "\<exists>c0 rows. subscript s0 (u ''id'') = Inr c0 \<and> new_rows E X s0 c0 = Inr rows
    \<and> filter (\<lambda>r. py_eq (row_id r) cid) (user_rows st') = [fst rows]
    \<and> filter (\<lambda>r. py_eq (row_id r) cid) (convo_rows st') = [snd rows]"
  using assms
proof (induction zs arbitrary: st)
  case Nil
  then show ?case by simp
next
  case (Cons z zs)
  obtain r st1 where i: "ingest E X z st = (r, st1)" by (cases "ingest E X z st")
  with Cons.prems(1) have rn: "r = None" and rest: "ingest_all E X zs st1 = (None, st')"
    by (auto split: option.splits)
  from i rn have i': "ingest E X z st = (None, st1)" by simp
  have c1: "consistent st1" using i' Cons.prems(2) by (rule ingest_consistent)
  from ingest_None [OF i'] obtain c where sub: "subscript z (u ''id'') = Inr c"
    and c: "(canon c \<in> canon ` set (seen st) \<and> st1 = st) \<or>
      (canon c \<notin> canon ` set (seen st) \<and>
       (\<exists>rows. new_rows E X z c = Inr rows \<and>
          st1 = st\<lparr>seen := seen st @ [c], user_rows := user_rows st @ [fst rows],
                    convo_rows := convo_rows st @ [snd rows]\<rparr>))"
    by blast
  show ?case
  proof (cases "has_id cid z")
    case True
    with Cons.prems(4) have s0: "s0 = z" by simp
    from True sub have eq: "canon c = canon cid" by (simp add: has_id_def py_eq_def)
    with c Cons.prems(3) obtain rows where r: "new_rows E X z c = Inr rows"
      and st1: "st1 = st\<lparr>seen := seen st @ [c], user_rows := user_rows st @ [fst rows],
                    convo_rows := convo_rows st @ [snd rows]\<rparr>"
      by auto
    have "filter (\<lambda>r. py_eq (row_id r) cid) (user_rows st1) = [fst rows]"
      and "filter (\<lambda>r. py_eq (row_id r) cid) (convo_rows st1) = [snd rows]"
      unfolding st1 using consistent_no_rows [OF Cons.prems(2,3)] eq
      by (simp_all add: new_rows_id [OF r] py_eq_def)
    moreover have "canon cid \<in> canon ` set (seen st1)"
      unfolding st1 using eq by simp
    ultimately have "filter (\<lambda>r. py_eq (row_id r) cid) (user_rows st') = [fst rows]
      \<and> filter (\<lambda>r. py_eq (row_id r) cid) (convo_rows st') = [snd rows]"
      using ingest_all_seen [OF rest c1, of cid] by simp
    with sub r s0 show ?thesis by blast
  next
    case False
    with Cons.prems(4) have f: "find (has_id cid) zs = Some s0" by simp
    from False sub have "canon c \<noteq> canon cid" by (simp add: has_id_def py_eq_def)
    with c Cons.prems(3) have "canon cid \<notin> canon ` set (seen st1)" by auto
    from Cons.IH [OF rest c1 this f] show ?thesis .
  qed
qed

lemma find_append_first: "find P xs = Some x \<Longrightarrow> find P (xs @ ys) = Some x"
  by (induction xs) (auto split: if_splits)

text \<open>
  C6: in a run that ends without an exception, an id that both searches yield has exactly
  one row in each output, and it is the pair of rows built from the first summary with
  that id in the first search.
\<close>

theorem dedup:
  assumes "collect E X xs ys = (None, st)"
    and "s \<in> set xs" and "has_id cid s" and "s' \<in> set ys" and "has_id cid s'"
  shows "\<exists>s0 c0 rows. find (has_id cid) xs = Some s0
    \<and> subscript s0 (u ''id'') = Inr c0 \<and> new_rows E X s0 c0 = Inr rows
    \<and> filter (\<lambda>r. py_eq (row_id r) cid) (user_rows st) = [fst rows]
    \<and> filter (\<lambda>r. py_eq (row_id r) cid) (convo_rows st) = [snd rows]"
proof -
  from assms(2,3) have "find (has_id cid) xs \<noteq> None" by (auto simp: find_None_iff)
  then obtain s0 where f: "find (has_id cid) xs = Some s0" by blast
  then have f': "find (has_id cid) (xs @ ys) = Some s0" by (rule find_append_first)
  have c: "consistent init_state" by (simp add: consistent_def init_state_def)
  have n: "canon cid \<notin> canon ` set (seen init_state)" by (simp add: init_state_def)
  from assms(1) have "ingest_all E X (xs @ ys) init_state = (None, st)"
    by (simp add: collect_append)
  from ingest_all_first [OF this c n f'] f show ?thesis by blast
qed

theorem dedup_witness:
  "fst (collect xml_entities X_demo [summary_42] [summary_42]) = None
   \<and> length (filter (\<lambda>r. py_eq (row_id r) (JStr (u ''42'')))
        (user_rows (snd (collect xml_entities X_demo [summary_42] [summary_42])))) = 1
   \<and> length (filter (\<lambda>r. py_eq (row_id r) (JStr (u ''42'')))
        (convo_rows (snd (collect xml_entities X_demo [summary_42] [summary_42])))) = 1"
proof -
  let ?st = "snd (collect xml_entities X_demo [summary_42] [summary_42])"
  have a: "collect xml_entities X_demo [summary_42] [summary_42] = (None, ?st)"
    by (simp add: collect_demo)
  have b: "summary_42 \<in> set [summary_42]" by simp
  have c: "has_id (JStr (u ''42'')) summary_42"
    by (simp add: has_id_def summary_42_def py_eq_def)
  have f: "fst (collect xml_entities X_demo [summary_42] [summary_42]) = None"
    by (simp add: collect_demo)
  from dedup [OF a b c b c] f show ?thesis by auto
qed

end
